theory Spec2Isabelle
  imports Complex_Main "HOL-Library.Log_Nat"
begin

section \<open>The CPU recorder (\<^verbatim>\<open>src/cpu_recorder.py\<close>)\<close>

text \<open>
  The script reads the first line of \<^verbatim>\<open>/proc/stat\<close> twice per sampling cycle,
  derives a utilisation percentage from the two snapshots and appends a row to a sink.

  Modelling decisions:
  \<^item> Python's unbounded \<^verbatim>\<open>int\<close> is \<^typ>\<open>int\<close>.
  \<^item> Python's \<^verbatim>\<open>float\<close> is modelled twice. \<open>percent_of_snapshots\<close> and the
    sampling loop compute with exact real numbers, which is enough for what the loop
    writes and when. \<open>percent_binary64\<close> computes line 34 as the interpreter does, in
    IEEE 754 binary64 with its rounding, infinities, signed zero and the
    \<^verbatim>\<open>OverflowError\<close> of converting a huge \<^verbatim>\<open>int\<close>; the claims about the range
    and the text of the value are settled on it.
  \<^item> Text is ASCII (\<^typ>\<open>string\<close>); decoding errors and Unicode digits or spaces
    are not represented.
  \<^item> Every exception the script can meet on its own path is a value of \<open>error\<close>;
    a function that may raise returns \<open>error + 'a\<close>.
  \<^item> What the script reads from its environment (the lines of \<^verbatim>\<open>/proc/stat\<close>,
    the clock, the file system) is a parameter, the record \<open>world\<close>.
  \<^item> The \<^verbatim>\<open>while\<close> loop may run forever, so the model of the loop takes fuel: a
    bound on the number of cycles it follows. A run whose fuel ends while the loop
    condition holds is reported as still running.
  \<^item> Writing to an open sink always succeeds in the model, and no signal arrives.
\<close>

subsection \<open>Errors\<close>

datatype error = IOError | ValueError | IndexError | OSError | OverflowError

subsection \<open>Text: \<^verbatim>\<open>str.strip\<close>, \<^verbatim>\<open>str.split\<close> and \<^verbatim>\<open>int\<close>\<close>

text \<open>The ASCII characters for which \<^verbatim>\<open>str.isspace\<close> holds: 9 to 13, 28 to 31 and 32.\<close>

definition is_space :: "char \<Rightarrow> bool" where
  "is_space c = (let n = (of_char c :: nat) in (9 \<le> n \<and> n \<le> 13) \<or> (28 \<le> n \<and> n \<le> 32))"

text \<open>\<^verbatim>\<open>s.strip()\<close>: drop the white space at both ends.\<close>

definition strip :: "string \<Rightarrow> string" where
  "strip s = rev (dropWhile is_space (rev (dropWhile is_space s)))"

text \<open>
  \<^verbatim>\<open>s.split()\<close> without a separator: the maximal runs of characters that are not
  white space, in order; no empty token is produced.
\<close>

fun split_acc :: "string \<Rightarrow> string \<Rightarrow> string list" where
  "split_acc tok [] = (if tok = [] then [] else [rev tok])"
| "split_acc tok (c # cs) =
     (if is_space c then (if tok = [] then split_acc [] cs else rev tok # split_acc [] cs)
      else split_acc (c # tok) cs)"

definition split :: "string \<Rightarrow> string list" where
  "split s = split_acc [] s"

definition digit_val :: "char \<Rightarrow> nat option" where
  "digit_val c = (let n = (of_char c :: nat) in if 48 \<le> n \<and> n \<le> 57 then Some (n - 48) else None)"

text \<open>
  The digits of a decimal literal as \<^verbatim>\<open>int(s)\<close> accepts them: at least one digit,
  and single underscores only between two digits. \<open>prev\<close> tells whether the previous
  character was a digit.
\<close>

fun parse_digits :: "nat \<Rightarrow> bool \<Rightarrow> string \<Rightarrow> nat option" where
  "parse_digits acc prev [] = (if prev then Some acc else None)"
| "parse_digits acc prev (c # cs) =
     (if c = CHR ''_'' then (if prev then parse_digits acc False cs else None)
      else (case digit_val c of
              None \<Rightarrow> None
            | Some d \<Rightarrow> parse_digits (10 * acc + d) True cs))"

text \<open>
  \<^verbatim>\<open>int(s)\<close> in base 10: surrounding white space is ignored, one sign is allowed.
  \<open>None\<close> stands for \<^verbatim>\<open>ValueError\<close>.
\<close>

definition py_int :: "string \<Rightarrow> int option" where
  "py_int s =
     (case strip s of
        [] \<Rightarrow> None
      | c # cs \<Rightarrow>
          if c = CHR ''-'' then map_option (\<lambda>n. - int n) (parse_digits 0 False cs)
          else if c = CHR ''+'' then map_option int (parse_digits 0 False cs)
          else map_option int (parse_digits 0 False (c # cs)))"

subsection \<open>\<^verbatim>\<open>_read_cpu_times\<close>\<close>

text \<open>
  What opening \<^verbatim>\<open>/proc/stat\<close> and calling \<^verbatim>\<open>readline\<close> gives: the file cannot be
  opened or read, or the first line (empty at end of file).
\<close>

datatype proc_read = Unreadable | FirstLine string

text \<open>
  \<^verbatim>\<open>[int(p) for p in parts]\<close>: the tokens are converted from left to right and the
  first failure is raised.
\<close>

fun ints_of :: "string list \<Rightarrow> error + int list" where
  "ints_of [] = Inr []"
| "ints_of (p # ps) =
     (case py_int p of
        None \<Rightarrow> Inl ValueError
      | Some n \<Rightarrow> (case ints_of ps of Inl e \<Rightarrow> Inl e | Inr ns \<Rightarrow> Inr (n # ns)))"

definition read_cpu_times :: "proc_read \<Rightarrow> error + int list" where
  "read_cpu_times r =
     (case r of
        Unreadable \<Rightarrow> Inl IOError
      | FirstLine l \<Rightarrow> ints_of (drop 1 (split (strip l))))"

subsection \<open>\<^verbatim>\<open>_cpu_percent\<close>\<close>

text \<open>\<^verbatim>\<open>xs[i]\<close> for a non-negative constant \<open>i\<close>.\<close>

definition index :: "int list \<Rightarrow> nat \<Rightarrow> error + int" where
  "index xs i = (if i < length xs then Inr (xs ! i) else Inl IndexError)"

text \<open>
  Lines 26 to 34 of \<^verbatim>\<open>_cpu_percent\<close>: the computation on the two snapshots, the
  four index reads in the order of the source. The variable \<open>cur\<close> is the source's
  \<^verbatim>\<open>curr\<close>, a name that HOL already uses.
\<close>

definition percent_of_snapshots :: "int list \<Rightarrow> int list \<Rightarrow> error + real" where
  "percent_of_snapshots prev cur =
     (case index prev 3 of Inl e \<Rightarrow> Inl e | Inr p3 \<Rightarrow>
     (case index prev 4 of Inl e \<Rightarrow> Inl e | Inr p4 \<Rightarrow>
     (case index cur 3 of Inl e \<Rightarrow> Inl e | Inr c3 \<Rightarrow>
     (case index cur 4 of Inl e \<Rightarrow> Inl e | Inr c4 \<Rightarrow>
        (let idle_prev = p3 + p4;
             idle_cur = c3 + c4;
             total_prev = sum_list prev;
             total_cur = sum_list cur;
             total_delta = total_cur - total_prev;
             idle_delta = idle_cur - idle_prev
         in if total_delta = 0 then Inr 0
            else Inr (100 * real_of_int (total_delta - idle_delta) / real_of_int total_delta))))))"

text \<open>\<^verbatim>\<open>time.sleep(interval)\<close> raises \<^verbatim>\<open>ValueError\<close> for a negative length.\<close>

definition sleep :: "real \<Rightarrow> error + unit" where
  "sleep interval = (if interval < 0 then Inl ValueError else Inr ())"

text \<open>
  \<^verbatim>\<open>_cpu_percent(interval)\<close>, given what its two reads of \<^verbatim>\<open>/proc/stat\<close> find.
\<close>

definition cpu_percent :: "proc_read \<Rightarrow> real \<Rightarrow> proc_read \<Rightarrow> error + real" where
  "cpu_percent r1 interval r2 =
     (case read_cpu_times r1 of Inl e \<Rightarrow> Inl e | Inr prev \<Rightarrow>
     (case sleep interval of Inl e \<Rightarrow> Inl e | Inr _ \<Rightarrow>
     (case read_cpu_times r2 of Inl e \<Rightarrow> Inl e | Inr cur \<Rightarrow>
        percent_of_snapshots prev cur)))"

subsection \<open>\<^verbatim>\<open>_cpu_percent\<close> in binary64 arithmetic\<close>

text \<open>
  \<open>percent_of_snapshots\<close> above computes line 34 exactly. The interpreter computes it
  in IEEE 754 binary64, rounding to nearest, ties to even, after each operation:
  \<^verbatim>\<open>100.0 * n\<close> converts the integer \<open>n\<close> to a float and multiplies, and
  \<^verbatim>\<open>/ total_delta\<close> converts \<open>total_delta\<close> and divides. The definitions below
  follow that evaluation. A finite float is represented by the real number it denotes.
\<close>

text \<open>Rounding a real number to the nearest integer, ties to the even one.\<close>

definition rne :: "real \<Rightarrow> int" where
  "rne y = (let f = \<lfloor>y\<rfloor>; d = y - of_int f
            in if d < 1 / 2 then f else if 1 / 2 < d then f + 1
               else if even f then f else f + 1)"

text \<open>The binary exponent of \<open>x \<noteq> 0\<close>: the \<open>e\<close> with \<open>2 ^ e \<le> |x| < 2 ^ (e + 1)\<close>.\<close>

definition expo :: "real \<Rightarrow> int" where
  "expo x = (if 1 \<le> \<bar>x\<bar> then bitlen \<lfloor>\<bar>x\<bar>\<rfloor> - 1 else - bitlen (\<lceil>1 / \<bar>x\<bar>\<rceil> - 1))"

text \<open>
  The binary64 number nearest to \<open>x\<close>, with an unbounded exponent range upwards: 53
  significant bits for normal numbers, multiples of \<open>2 ^ - 1074\<close> below \<open>2 ^ - 1022\<close>.
  Whether the result is too large for binary64 is decided by the operation that rounds.
\<close>

definition round_b64 :: "real \<Rightarrow> real" where
  "round_b64 x =
     (if x = 0 then 0
      else (let j = max (expo x) (- 1022) - 52
            in of_int (rne (x / 2 powi j)) * 2 powi j))"

text \<open>A float: a finite number (\<open>Fin 0\<close> is \<^verbatim>\<open>0.0\<close>), \<^verbatim>\<open>-0.0\<close>, an infinity or a NaN.\<close>

datatype f64 = Fin real | NegZero | PosInf | NegInf | NaN

definition b64_limit :: real where
  "b64_limit = 2 ^ 1024"

text \<open>
  The result of an arithmetic operation whose rounded value is \<open>r\<close>: an infinity when
  \<open>r\<close> is out of range, and a zero with the sign of the exact result.
\<close>

definition to_f64 :: "bool \<Rightarrow> real \<Rightarrow> f64" where
  "to_f64 neg r =
     (if b64_limit \<le> r then PosInf else if r \<le> - b64_limit then NegInf
      else if r = 0 \<and> neg then NegZero else Fin r)"

text \<open>
  The conversion of an \<^verbatim>\<open>int\<close> operand to \<^verbatim>\<open>float\<close>: correctly rounded, and
  \<^verbatim>\<open>OverflowError\<close> when the integer is too large.
\<close>

definition int_to_float :: "int \<Rightarrow> error + real" where
  "int_to_float n =
     (let r = round_b64 (of_int n) in if b64_limit \<le> \<bar>r\<bar> then Inl OverflowError else Inr r)"

text \<open>\<^verbatim>\<open>100.0 * a\<close> for a finite \<open>a\<close>.\<close>

definition mul_100 :: "real \<Rightarrow> f64" where
  "mul_100 a = to_f64 (a < 0) (round_b64 (100 * a))"

text \<open>\<^verbatim>\<open>y / b\<close> for a finite \<open>b \<noteq> 0\<close>.\<close>

definition div_by :: "f64 \<Rightarrow> real \<Rightarrow> f64" where
  "div_by y b =
     (case y of
        Fin a \<Rightarrow> to_f64 ((a < 0) \<noteq> (b < 0)) (round_b64 (a / b))
      | NegZero \<Rightarrow> (if b < 0 then Fin 0 else NegZero)
      | PosInf \<Rightarrow> (if b < 0 then NegInf else PosInf)
      | NegInf \<Rightarrow> (if b < 0 then PosInf else NegInf)
      | NaN \<Rightarrow> NaN)"

text \<open>Lines 32 to 34, as a function of the two deltas.\<close>

definition ratio_binary64 :: "int \<Rightarrow> int \<Rightarrow> error + f64" where
  "ratio_binary64 total_delta idle_delta =
     (if total_delta = 0 then Inr (Fin 0)
      else (case int_to_float (total_delta - idle_delta) of Inl e \<Rightarrow> Inl e | Inr a \<Rightarrow>
           (case int_to_float total_delta of Inl e \<Rightarrow> Inl e | Inr b \<Rightarrow>
              Inr (div_by (mul_100 a) b))))"

text \<open>Lines 26 to 34 of \<^verbatim>\<open>_cpu_percent\<close>, with the float that the interpreter returns.\<close>

definition percent_binary64 :: "int list \<Rightarrow> int list \<Rightarrow> error + f64" where
  "percent_binary64 prev cur =
     (case index prev 3 of Inl e \<Rightarrow> Inl e | Inr p3 \<Rightarrow>
     (case index prev 4 of Inl e \<Rightarrow> Inl e | Inr p4 \<Rightarrow>
     (case index cur 3 of Inl e \<Rightarrow> Inl e | Inr c3 \<Rightarrow>
     (case index cur 4 of Inl e \<Rightarrow> Inl e | Inr c4 \<Rightarrow>
        (let idle_prev = p3 + p4;
             idle_cur = c3 + c4;
             total_prev = sum_list prev;
             total_cur = sum_list cur;
             total_delta = total_cur - total_prev;
             idle_delta = idle_cur - idle_prev
         in ratio_binary64 total_delta idle_delta)))))"

subsection \<open>The environment and the sink\<close>

text \<open>
  A value handed to \<^verbatim>\<open>writer.writerow\<close>: a string or a float. A row is the list of
  values of one \<^verbatim>\<open>writerow\<close> call, which the writer emits as one line (no value
  written by the script holds a line break). How the writer prints a float is outside
  the model.
\<close>

datatype cell = Str string | Num real

type_synonym row = "cell list"

text \<open>
  The environment of one run:
  \<^item> \<open>proc_stat k\<close> is what the \<open>k\<close>-th read of \<^verbatim>\<open>/proc/stat\<close> finds (from 0);
  \<^item> \<open>now k\<close> is \<^verbatim>\<open>datetime.now().isoformat()\<close> in the \<open>k\<close>-th cycle (from 0);
  \<^item> \<open>files p\<close> is the content of the file at path \<open>p\<close> when the run starts, as the
    rows it holds, \<open>None\<close> when nothing exists at \<open>p\<close> (\<^verbatim>\<open>Path.exists\<close> is false);
  \<^item> \<open>openable p\<close> tells whether opening \<open>p\<close> for appending succeeds.
\<close>

record world =
  proc_stat :: "nat \<Rightarrow> proc_read"
  now :: "nat \<Rightarrow> string"
  files :: "string \<Rightarrow> row list option"
  openable :: "string \<Rightarrow> bool"

text \<open>
  How a run ends: \<open>Returned\<close> (the loop condition became false), \<open>Raised e\<close> (an
  exception left \<^verbatim>\<open>record_cpu\<close>), or \<open>Running\<close>: the fuel given to the model ran out
  while the loop condition still held, so the script would start another cycle.
\<close>

datatype status = Returned | Raised error | Running

record outcome =
  written :: "row list"
  status :: status

definition header_row :: row where
  "header_row = [Str ''timestamp'', Str ''cpu_percent'']"

subsection \<open>\<^verbatim>\<open>record_cpu\<close>\<close>

text \<open>The condition of the \<^verbatim>\<open>while\<close> loop (line 58).\<close>

definition loop_cond :: "int \<Rightarrow> nat \<Rightarrow> bool" where
  "loop_cond iterations count = (iterations = 0 \<or> int count < iterations)"

text \<open>
  The call \<^verbatim>\<open>_cpu_percent(interval)\<close> of cycle \<open>count\<close>: every earlier cycle made two
  reads, so this one makes the reads \<open>2 * count\<close> and \<open>2 * count + 1\<close>.
\<close>

definition cycle :: "world \<Rightarrow> real \<Rightarrow> nat \<Rightarrow> error + real" where
  "cycle w interval count =
     cpu_percent (proc_stat w (2 * count)) interval (proc_stat w (2 * count + 1))"

text \<open>
  The loop of lines 57 to 62. \<open>out\<close> holds the rows written so far. The first argument
  after \<open>iterations\<close> is the fuel: the number of cycles the model may still run.
  \<^verbatim>\<open>file_obj.flush()\<close> has no effect on the rows in \<open>out\<close>.
\<close>

fun sampling_loop :: "world \<Rightarrow> real \<Rightarrow> int \<Rightarrow> nat \<Rightarrow> nat \<Rightarrow> row list \<Rightarrow> outcome" where
  "sampling_loop w interval iterations 0 count out =
     \<lparr>written = out, status = (if loop_cond iterations count then Running else Returned)\<rparr>"
| "sampling_loop w interval iterations (Suc fuel) count out =
     (if loop_cond iterations count then
        (case cycle w interval count of
           Inl e \<Rightarrow> \<lparr>written = out, status = Raised e\<rparr>
         | Inr cpu \<Rightarrow>
             sampling_loop w interval iterations fuel (count + 1)
               (out @ [[Str (now w count), Num cpu]]))
      else \<lparr>written = out, status = Returned\<rparr>)"

text \<open>
  \<^verbatim>\<open>record_cpu(interval, iterations, output_file)\<close>, lines 45 to 62. \<open>written\<close> is what
  the run appends to the sink.
\<close>

definition record_cpu :: "world \<Rightarrow> nat \<Rightarrow> real \<Rightarrow> int \<Rightarrow> string \<Rightarrow> outcome" where
  "record_cpu w fuel interval iterations output_file =
     (if output_file = ''-'' then
        sampling_loop w interval iterations fuel 0 [header_row]
      else
        (let header_needed = (files w output_file = None) in
         if \<not> openable w output_file then \<lparr>written = [], status = Raised OSError\<rparr>
         else sampling_loop w interval iterations fuel 0
                (if header_needed then [header_row] else [])))"

text \<open>
  The content of the file at \<open>output_file\<close> once it was opened for appending and
  \<open>rows\<close> were written to it.
\<close>

definition file_after :: "world \<Rightarrow> string \<Rightarrow> row list \<Rightarrow> row list" where
  "file_after w output_file rows =
     (case files w output_file of None \<Rightarrow> rows | Some old \<Rightarrow> old @ rows)"

text \<open>The rows of the cycles \<open>0, \<dots>, n - 1\<close> of a run, when each of them computes a value.\<close>

definition data_row :: "world \<Rightarrow> real \<Rightarrow> nat \<Rightarrow> row" where
  "data_row w interval k = [Str (now w k), Num (projr (cycle w interval k))]"

definition data_rows :: "world \<Rightarrow> real \<Rightarrow> nat \<Rightarrow> row list" where
  "data_rows w interval n = map (data_row w interval) [0..<n]"

text \<open>The rows with which a run starts its sink: the header, or nothing.\<close>

definition header_part :: "world \<Rightarrow> string \<Rightarrow> row list" where
  "header_part w output_file =
     (if output_file = ''-'' \<or> files w output_file = None then [header_row] else [])"

subsection \<open>Tokens that \<^verbatim>\<open>int\<close> accepts\<close>

text \<open>A token is numeric when \<^verbatim>\<open>int\<close> converts it.\<close>

definition numeric :: "string \<Rightarrow> bool" where
  "numeric t = (py_int t \<noteq> None)"

definition is_digit :: "char \<Rightarrow> bool" where
  "is_digit c = (digit_val c \<noteq> None)"

text \<open>The number that a string of decimal digits denotes.\<close>

definition decimal :: "string \<Rightarrow> nat" where
  "decimal ds = foldl (\<lambda>a c. 10 * a + the (digit_val c)) 0 ds"

subsection \<open>Example environments\<close>

text \<open>
  The two snapshots of the specification's scenario, read in turn by every cycle, with
  a clock that stands still, an empty file system and every path openable.
\<close>

definition example_world :: world where
  "example_world =
     \<lparr>proc_stat = (\<lambda>k. if even k then FirstLine ''cpu  100 0 0 800 50 0 0 0''
                       else FirstLine ''cpu  110 0 0 850 50 0 0 0''),
      now = (\<lambda>k. ''2024-05-01T12:00:00.000000''),
      files = (\<lambda>p. None),
      openable = (\<lambda>p. True)\<rparr>"

text \<open>The same, but the second read of the second cycle finds a token that is no number.\<close>

definition broken_world :: world where
  "broken_world =
     example_world\<lparr>proc_stat :=
       (\<lambda>k. if k = 3 then FirstLine ''cpu  110 0 zero 850 50'' else proc_stat example_world k)\<rparr>"

text \<open>The same as \<open>example_world\<close>, but every path holds an existing file without content.\<close>

definition empty_file_world :: world where
  "empty_file_world = example_world\<lparr>files := (\<lambda>p. Some [])\<rparr>"

text \<open>The same, but every path holds a file with one row already in it.\<close>

definition used_file_world :: world where
  "used_file_world = example_world\<lparr>files := (\<lambda>p. Some [header_row])\<rparr>"

section \<open>Properties of the snapshot reader\<close>

lemma ints_of_all:
  "ints_of ps = (if list_all numeric ps then Inr (map (the \<circ> py_int) ps) else Inl ValueError)"
  by (induction ps) (auto simp: numeric_def split: option.splits)

lemma digit_not_special:
  assumes "is_digit c"
  shows "c \<noteq> CHR ''_''" and "c \<noteq> CHR ''-''" and "c \<noteq> CHR ''+''" and "\<not> is_space c"
  using assms by (auto simp: is_digit_def digit_val_def is_space_def Let_def split: if_splits)

lemma parse_digits_digits:
  assumes "list_all is_digit ds" and "ds \<noteq> [] \<or> prev"
  shows "parse_digits acc prev ds = Some (foldl (\<lambda>a c. 10 * a + the (digit_val c)) acc ds)"
  using assms
proof (induction ds arbitrary: acc prev)
  case Nil
  then show ?case by simp
next
  case (Cons c cs)
  from Cons.prems have d: "is_digit c" and rest: "list_all is_digit cs" by simp_all
  from d obtain v where v: "digit_val c = Some v" by (auto simp: is_digit_def)
  from Cons.IH [OF rest, of True "10 * acc + v"] digit_not_special(1) [OF d] v
  show ?case by simp
qed

lemma dropWhile_none: "\<forall>x\<in>set xs. \<not> P x \<Longrightarrow> dropWhile P xs = xs"
  by (cases xs) auto

lemma strip_digits: "list_all is_digit ds \<Longrightarrow> strip ds = ds"
  by (simp add: strip_def dropWhile_none list_all_iff digit_not_special(4))

text \<open>A non-empty string of decimal digits is converted to the number it denotes.\<close>

lemma py_int_digits:
  assumes "ds \<noteq> []" and "list_all is_digit ds"
  shows "py_int ds = Some (int (decimal ds))"
proof -
  from assms obtain c cs where ds: "ds = c # cs" by (cases ds) auto
  with assms have d: "is_digit c" by simp
  have s: "strip ds = c # cs"
    using strip_digits [OF assms(2)] ds by simp
  have "parse_digits 0 False ds = Some (decimal ds)"
    unfolding decimal_def using assms by (intro parse_digits_digits) simp_all
  then have p: "parse_digits 0 False (c # cs) = Some (decimal ds)"
    by (simp only: ds)
  show ?thesis
    unfolding py_int_def s using p digit_not_special(2,3) [OF d]
    by (simp del: parse_digits.simps)
qed

lemma numeric_digits: "ds \<noteq> [] \<Longrightarrow> list_all is_digit ds \<Longrightarrow> numeric ds"
  by (simp add: numeric_def py_int_digits)

lemma read_prev:
  "read_cpu_times (FirstLine ''cpu  100 0 0 800 50 0 0 0'') = Inr [100, 0, 0, 800, 50, 0, 0, 0]"
  by code_simp

lemma read_cur:
  "read_cpu_times (FirstLine ''cpu  110 0 0 850 50 0 0 0'') = Inr [110, 0, 0, 850, 50, 0, 0, 0]"
  by code_simp

lemma read_broken:
  "read_cpu_times (FirstLine ''cpu  110 0 zero 850 50'') = Inl ValueError"
  by code_simp

text \<open>
  Claim C7. The snapshot reader drops the first token of the line (the label) and
  converts every other token with \<^verbatim>\<open>int\<close>. It returns the list of the converted
  values exactly when every token after the label is numeric; as soon as one token is
  not, the whole read fails with \<^verbatim>\<open>ValueError\<close>: no token is skipped and no partial
  list is returned.
\<close>

theorem read_cpu_times_all_or_nothing:
  "read_cpu_times (FirstLine l) =
     (if list_all numeric (drop 1 (split (strip l)))
      then Inr (map (the \<circ> py_int) (drop 1 (split (strip l))))
      else Inl ValueError)"
  by (simp only: read_cpu_times_def proc_read.case ints_of_all)

theorem read_cpu_times_all_or_nothing_witness:
  "read_cpu_times (FirstLine ''cpu  110 0 zero 850 50'') = Inl ValueError \<and>
   read_cpu_times (FirstLine ''cpu 7 +8 1_0'') = Inr [7, 8, 10]"
proof -
  have a: "\<not> list_all numeric (drop 1 (split (strip ''cpu  110 0 zero 850 50'')))"
    unfolding numeric_def by code_simp
  have b: "list_all numeric (drop 1 (split (strip ''cpu 7 +8 1_0'')))"
    unfolding numeric_def by code_simp
  have c: "map (the \<circ> py_int) (drop 1 (split (strip ''cpu 7 +8 1_0''))) = [7, 8, 10]"
    by code_simp
  from read_cpu_times_all_or_nothing [of "''cpu  110 0 zero 850 50''"]
       read_cpu_times_all_or_nothing [of "''cpu 7 +8 1_0''"] a b c
  show ?thesis by simp
qed

section \<open>Properties of the utilisation calculator\<close>

lemma index_in_range: "i < length xs \<Longrightarrow> index xs i = Inr (xs ! i)"
  by (simp add: index_def)

lemma percent_of_snapshots_value:
  assumes "5 \<le> length prev" and "5 \<le> length cur"
  shows "percent_of_snapshots prev cur =
           Inr (if sum_list cur - sum_list prev = 0 then 0
                else 100 * real_of_int ((sum_list cur - sum_list prev) -
                                        ((cur ! 3 + cur ! 4) - (prev ! 3 + prev ! 4)))
                     / real_of_int (sum_list cur - sum_list prev))"
  using assms by (simp add: percent_of_snapshots_def index_in_range Let_def)

lemma percent_of_snapshots_short:
  assumes "length prev < 5 \<or> length cur < 5"
  shows "percent_of_snapshots prev cur = Inl IndexError"
  using assms by (auto simp: percent_of_snapshots_def index_def Let_def)

lemma example_percent:
  "cpu_percent (FirstLine ''cpu  100 0 0 800 50 0 0 0'') 1 (FirstLine ''cpu  110 0 0 850 50 0 0 0'')
     = Inr (50 / 3)"
  by (simp add: cpu_percent_def read_prev read_cur sleep_def percent_of_snapshots_value)

text \<open>
  Claim C1. When both reads of a cycle give snapshots with at least five counters (and
  the interval is one that \<^verbatim>\<open>time.sleep\<close> accepts), \<^verbatim>\<open>_cpu_percent\<close> returns 0 if
  \<open>total_delta = sum cur - sum prev\<close> is 0, and otherwise
  \<open>100 * (total_delta - idle_delta) / total_delta\<close> with
  \<open>idle_delta = (cur[3] + cur[4]) - (prev[3] + prev[4])\<close>. For the snapshots
  \<open>[100,0,0,800,50,0,0,0]\<close> and \<open>[110,0,0,850,50,0,0,0]\<close> the value is
  \<open>100 * (60 - 50) / 60 = 50 / 3\<close>.
\<close>

theorem cpu_percent_formula:
  assumes "read_cpu_times r1 = Inr prev" and "read_cpu_times r2 = Inr cur"
    and "0 \<le> interval" and "5 \<le> length prev" and "5 \<le> length cur"
  shows "cpu_percent r1 interval r2 =
           Inr (if sum_list cur - sum_list prev = 0 then 0
                else 100 * real_of_int ((sum_list cur - sum_list prev) -
                                        ((cur ! 3 + cur ! 4) - (prev ! 3 + prev ! 4)))
                     / real_of_int (sum_list cur - sum_list prev))"
  using assms by (simp add: cpu_percent_def sleep_def percent_of_snapshots_value)

theorem cpu_percent_formula_witness:
  "cpu_percent (FirstLine ''cpu  100 0 0 800 50 0 0 0'') 1 (FirstLine ''cpu  110 0 0 850 50 0 0 0'')
     = Inr (100 * (60 - 50) / 60) \<and>
   cpu_percent (FirstLine ''cpu  100 0 0 800 50 0 0 0'') 1 (FirstLine ''cpu  100 0 0 800 50 0 0 0'')
     = Inr 0"
  using cpu_percent_formula [OF read_prev read_cur, of 1]
        cpu_percent_formula [OF read_prev read_prev, of 1]
  by simp

text \<open>
  Claim C8. The computation on two snapshots fails with \<^verbatim>\<open>IndexError\<close> exactly when
  one of them has fewer than five counters (the reads at the positions 3 and 4 are then
  out of range; no default is substituted), and it returns a value exactly when both
  have at least five counters.
\<close>

theorem short_snapshot_index_error:
  "(percent_of_snapshots prev cur = Inl IndexError \<longleftrightarrow> length prev < 5 \<or> length cur < 5) \<and>
   ((\<exists>v. percent_of_snapshots prev cur = Inr v) \<longleftrightarrow> 5 \<le> length prev \<and> 5 \<le> length cur)"
proof (cases "length prev < 5 \<or> length cur < 5")
  case True
  then show ?thesis using percent_of_snapshots_short [OF True] by auto
next
  case False
  then have "5 \<le> length prev" "5 \<le> length cur" by auto
  from percent_of_snapshots_value [OF this] False show ?thesis by auto
qed

theorem short_snapshot_index_error_witness:
  "percent_of_snapshots [100, 0, 0, 800] [110, 0, 0, 850, 50] = Inl IndexError \<and>
   (\<exists>v. percent_of_snapshots [100, 0, 0, 800, 50] [110, 0, 0, 850, 50] = Inr v)"
  using short_snapshot_index_error [of "[100, 0, 0, 800]" "[110, 0, 0, 850, 50]"]
        short_snapshot_index_error [of "[100, 0, 0, 800, 50]" "[110, 0, 0, 850, 50]"]
  by simp

lemma sum_list_all2_le:
  "list_all2 (\<le>) xs ys \<Longrightarrow> sum_list xs \<le> sum_list (ys :: int list)"
  by (induction rule: list_all2_induct) auto

lemma monotone_deltas:
  assumes "list_all2 (\<le>) prev cur" and "5 \<le> length prev"
  shows "0 \<le> (cur ! 3 + cur ! 4) - (prev ! 3 + prev ! 4)"
    and "(cur ! 3 + cur ! 4) - (prev ! 3 + prev ! 4) \<le> sum_list cur - sum_list (prev :: int list)"
proof -
  from assms(2) obtain a b c d e ps where p: "prev = a # b # c # d # e # ps"
    by (cases prev; simp; cases "tl prev"; simp; cases "tl (tl prev)"; simp;
        cases "tl (tl (tl prev))"; simp; cases "tl (tl (tl (tl prev)))"; simp)
  with assms(1) obtain a' b' c' d' e' cs where
    c: "cur = a' # b' # c' # d' # e' # cs" and
    le: "a \<le> a'" "b \<le> b'" "c \<le> c'" "d \<le> d'" "e \<le> e'" "list_all2 (\<le>) ps cs"
    by (auto simp: list_all2_Cons1)
  from sum_list_all2_le [OF le(6)] have "sum_list ps \<le> sum_list cs" .
  with p c le show "0 \<le> (cur ! 3 + cur ! 4) - (prev ! 3 + prev ! 4)"
    and "(cur ! 3 + cur ! 4) - (prev ! 3 + prev ! 4) \<le> sum_list cur - sum_list prev"
    by (simp_all add: numeral_3_eq_3 eval_nat_numeral)
qed

subsection \<open>Binary64 rounding\<close>

lemma rne_of_int: "rne (of_int n) = n"
  by (simp add: rne_def)

lemma rne_le: "y \<le> of_int k \<Longrightarrow> rne y \<le> k"
proof -
  assume a: "y \<le> of_int k"
  then have f: "\<lfloor>y\<rfloor> \<le> k" by (simp add: floor_le_iff)
  show ?thesis
  proof (cases "\<lfloor>y\<rfloor> = k")
    case True
    with a have "y = of_int k" by linarith
    then show ?thesis by (simp add: rne_of_int)
  next
    case False
    with f have "\<lfloor>y\<rfloor> + 1 \<le> k" by simp
    then show ?thesis by (simp add: rne_def Let_def)
  qed
qed

lemma rne_ge: "of_int k \<le> y \<Longrightarrow> k \<le> rne y"
proof -
  assume "of_int k \<le> y"
  then have "k \<le> \<lfloor>y\<rfloor>" by (simp add: le_floor_iff)
  then show ?thesis by (simp add: rne_def Let_def)
qed

lemma real_pow2_le: "2 ^ k \<le> (n::int) \<Longrightarrow> (2::real) ^ k \<le> real_of_int n"
  using of_int_le_iff [of "2 ^ k" n, where ?'a = real] by simp

lemma real_le_pow2: "(n::int) \<le> 2 ^ k \<Longrightarrow> real_of_int n \<le> (2::real) ^ k"
  using of_int_le_iff [of n "2 ^ k", where ?'a = real] by simp

lemma expo_bounds:
  assumes "x \<noteq> 0"
  shows "2 powi expo x \<le> \<bar>x\<bar>" and "\<bar>x\<bar> < 2 powi (expo x + 1)"
proof -
  have "2 powi expo x \<le> \<bar>x\<bar> \<and> \<bar>x\<bar> < 2 powi (expo x + 1)"
  proof (cases "1 \<le> \<bar>x\<bar>")
    case True
    define n where "n = \<lfloor>\<bar>x\<bar>\<rfloor>"
    from True have n: "0 < n" by (simp add: n_def)
    then have b: "1 \<le> bitlen n" by (simp add: bitlen_alt_def)
    from bitlen_bounds [OF n] have lo: "2 ^ nat (bitlen n - 1) \<le> n" and hi: "n < 2 ^ nat (bitlen n)"
      by simp_all
    have e: "expo x = bitlen n - 1" using True by (simp add: expo_def n_def)
    have "real_of_int (2 ^ nat (bitlen n - 1)) \<le> real_of_int n" using lo by (simp only: of_int_le_iff)
    also have "\<dots> \<le> \<bar>x\<bar>" by (simp add: n_def)
    finally have 1: "2 powi expo x \<le> \<bar>x\<bar>"
      using b by (simp add: e power_int_nonneg_exp)
    from hi have "n + 1 \<le> 2 ^ nat (bitlen n)" by simp
    then have "real_of_int (n + 1) \<le> real_of_int (2 ^ nat (bitlen n))" by (simp only: of_int_le_iff)
    moreover have "\<bar>x\<bar> < real_of_int (n + 1)" by (simp add: n_def)
    ultimately have "\<bar>x\<bar> < 2 ^ nat (bitlen n)" by simp
    then have 2: "\<bar>x\<bar> < 2 powi (expo x + 1)"
      using b by (simp add: e power_int_nonneg_exp)
    from 1 2 show ?thesis ..
  next
    case False
    define y where "y = 1 / \<bar>x\<bar>"
    from False assms have y1: "1 < y" by (simp add: y_def)
    define n where "n = \<lceil>y\<rceil> - 1"
    from y1 have n: "0 < n" by (simp add: n_def)
    then have b: "1 \<le> bitlen n" by (simp add: bitlen_alt_def)
    from bitlen_bounds [OF n] have lo: "2 ^ nat (bitlen n - 1) \<le> n" and hi: "n < 2 ^ nat (bitlen n)"
      by simp_all
    have e: "expo x = - bitlen n" using False by (simp add: expo_def n_def y_def)
    have ny: "real_of_int n < y" and yn: "y \<le> real_of_int (n + 1)"
      unfolding n_def by linarith+
    from hi have "n + 1 \<le> 2 ^ nat (bitlen n)" by simp
    then have "real_of_int (n + 1) \<le> real_of_int (2 ^ nat (bitlen n))" by (simp only: of_int_le_iff)
    with yn have "y \<le> 2 ^ nat (bitlen n)" by simp
    then have "1 / 2 ^ nat (bitlen n) \<le> 1 / y"
      using y1 by (simp add: frac_le)
    moreover have "1 / y = \<bar>x\<bar>" using assms by (simp add: y_def)
    ultimately have 1: "2 powi expo x \<le> \<bar>x\<bar>"
      using b by (simp add: e power_int_minus_divide power_int_nonneg_exp)
    from real_pow2_le [OF lo] ny have "2 ^ nat (bitlen n - 1) < y" by linarith
    then have "1 / y < 1 / 2 ^ nat (bitlen n - 1)"
      by (simp add: frac_less2)
    with \<open>1 / y = \<bar>x\<bar>\<close> have "\<bar>x\<bar> < 1 / 2 ^ nat (bitlen n - 1)" by simp
    moreover have "expo x + 1 = - (bitlen n - 1)" by (simp add: e)
    ultimately have 2: "\<bar>x\<bar> < 2 powi (expo x + 1)"
      using b by (simp only: power_int_minus_divide) (simp add: power_int_nonneg_exp)
    from 1 2 show ?thesis ..
  qed
  then show "2 powi expo x \<le> \<bar>x\<bar>" and "\<bar>x\<bar> < 2 powi (expo x + 1)" by simp_all
qed

lemma two_powi_less_cancel: "2 powi a < (2::real) powi b \<Longrightarrow> a < b"
proof (rule ccontr)
  assume lt: "2 powi a < (2::real) powi b" and "\<not> a < b"
  then have "b \<le> a" by simp
  then have "2 powi b \<le> (2::real) powi a" by (intro power_int_increasing) simp_all
  with lt show False by simp
qed

lemma expo_unique:
  assumes "2 powi e \<le> \<bar>x\<bar>" and "\<bar>x\<bar> < 2 powi (e + 1)"
  shows "expo x = e"
proof -
  have "0 < (2::real) powi e" by simp
  then have "0 < \<bar>x\<bar>" using assms(1) by (rule less_le_trans)
  then have nz: "x \<noteq> 0" by simp
  note b = expo_bounds [OF nz]
  have "2 powi e < (2::real) powi (expo x + 1)" using assms(1) b(2) by linarith
  then have 1: "e < expo x + 1" by (rule two_powi_less_cancel)
  have "2 powi expo x < (2::real) powi (e + 1)" using assms(2) b(1) by linarith
  then have 2: "expo x < e + 1" by (rule two_powi_less_cancel)
  from 1 2 show ?thesis by simp
qed

lemma expo_less:
  assumes "x \<noteq> 0" and "\<bar>x\<bar> < 2 powi k"
  shows "expo x < k"
proof -
  from expo_bounds(1) [OF assms(1)] assms(2) have "2 powi expo x < (2::real) powi k" by linarith
  then show ?thesis by (rule two_powi_less_cancel)
qed

lemma expo_ge:
  assumes "2 powi k \<le> \<bar>x\<bar>"
  shows "k \<le> expo x"
proof -
  have "0 < (2::real) powi k" by simp
  then have "0 < \<bar>x\<bar>" using assms by (rule less_le_trans)
  then have nz: "x \<noteq> 0" by simp
  from expo_bounds(2) [OF nz] assms have "2 powi k < (2::real) powi (expo x + 1)" by linarith
  then have "k < expo x + 1" by (rule two_powi_less_cancel)
  then show ?thesis by simp
qed

lemma round_b64_int:
  assumes "\<bar>n\<bar> < 2 ^ 53"
  shows "round_b64 (of_int n) = of_int n"
proof (cases "n = 0")
  case True
  then show ?thesis by (simp add: round_b64_def)
next
  case False
  define x where "x = real_of_int n"
  from False have nz: "x \<noteq> 0" by (simp add: x_def)
  from False have "1 \<le> \<bar>n\<bar>" by simp
  then have "1 \<le> \<bar>x\<bar>" unfolding x_def by (metis of_int_1_le_iff of_int_abs)
  then have "2 powi 0 \<le> \<bar>x\<bar>" by simp
  then have e0: "0 \<le> expo x" by (rule expo_ge)
  from assms have "\<bar>x\<bar> < 2 ^ 53" unfolding x_def
    by (metis of_int_abs of_int_less_iff of_int_numeral of_int_power)
  then have "\<bar>x\<bar> < 2 powi 53" by simp
  from expo_less [OF nz this] have e53: "expo x \<le> 52" by simp
  define k where "k = nat (52 - expo x)"
  have j: "max (expo x) (- 1022) - 52 = - int k" using e0 e53 by (simp add: k_def)
  have p: "(2::real) powi (- int k) = 1 / 2 ^ k" by (simp add: power_int_minus_divide)
  have "x / 2 powi (- int k) = real_of_int (n * 2 ^ k)" by (simp add: p x_def)
  then have "rne (x / 2 powi (- int k)) = n * 2 ^ k" by (simp only: rne_of_int)
  then have "round_b64 x = real_of_int (n * 2 ^ k) / 2 ^ k"
    using nz by (simp add: round_b64_def j Let_def p)
  then have "round_b64 x = x" by (simp add: x_def)
  then show ?thesis by (simp only: x_def)
qed

lemma round_b64_percent:
  assumes "0 \<le> x" and "x \<le> 100"
  shows "0 \<le> round_b64 x" and "round_b64 x \<le> 100"
proof -
  have "0 \<le> round_b64 x \<and> round_b64 x \<le> 100"
  proof (cases "x = 0")
    case True
    then show ?thesis by (simp add: round_b64_def)
  next
    case False
    from assms have "\<bar>x\<bar> < 2 powi 7" by simp
    from expo_less [OF False this] have e: "expo x \<le> 6" by simp
    define j where "j = max (expo x) (- 1022) - 52"
    define k where "k = nat (- j)"
    from e have jk: "j = - int k" and k: "46 \<le> k" by (simp_all add: j_def k_def)
    have p: "(2::real) powi j = 1 / 2 ^ k" by (simp add: jk power_int_minus_divide)
    have s: "x / 2 powi j = x * 2 ^ k" by (simp add: p)
    from assms(1) have "real_of_int 0 \<le> x * 2 ^ k" by simp
    then have lo: "0 \<le> rne (x * 2 ^ k)" by (rule rne_ge)
    from assms(2) have "x * 2 ^ k \<le> 100 * 2 ^ k" by simp
    then have "x * 2 ^ k \<le> real_of_int (100 * 2 ^ k)" by simp
    then have hi: "rne (x * 2 ^ k) \<le> 100 * 2 ^ k" by (rule rne_le)
    have r: "round_b64 x = real_of_int (rne (x * 2 ^ k)) / 2 ^ k"
      using False by (simp add: round_b64_def Let_def j_def [symmetric] s p)
    from lo have 1: "0 \<le> round_b64 x" by (simp add: r)
    from hi have "real_of_int (rne (x * 2 ^ k)) \<le> real_of_int (100 * 2 ^ k)"
      by (simp only: of_int_le_iff)
    then have 2: "round_b64 x \<le> 100" by (simp add: r divide_le_eq)
    from 1 2 show ?thesis ..
  qed
  then show "0 \<le> round_b64 x" and "round_b64 x \<le> 100" by simp_all
qed

lemma round_b64_eval:
  assumes "2 powi e \<le> \<bar>x\<bar>" and "\<bar>x\<bar> < 2 powi (e + 1)" and "- 1022 \<le> e"
  shows "round_b64 x = of_int (rne (x / 2 powi (e - 52))) * 2 powi (e - 52)"
proof -
  have "0 < (2::real) powi e" by simp
  then have "0 < \<bar>x\<bar>" using assms(1) by (rule less_le_trans)
  then have nz: "x \<noteq> 0" by simp
  from expo_unique [OF assms(1,2)] assms(3) nz show ?thesis
    by (simp add: round_b64_def Let_def max_def)
qed

lemma round_b64_example_product: "round_b64 731623355371601600 = 731623355371601664"
  by (subst round_b64_eval [of 59]) (simp_all add: rne_def Let_def)

lemma round_b64_example_quotient: "round_b64 (731623355371601664 / 7316233553716016) = 100 + 1 / 2 ^ 46"
  by (subst round_b64_eval [of 6]) (simp_all add: rne_def Let_def)

lemma round_b64_example_scenario: "round_b64 (50 / 3) = 4691249611844267 / 2 ^ 48"
  by (subst round_b64_eval [of 4]) (simp_all add: rne_def Let_def)

lemma b64_limit_gt: "\<bar>r\<bar> \<le> 2 ^ 53 \<Longrightarrow> \<bar>r\<bar> < b64_limit"
proof -
  assume "\<bar>r\<bar> \<le> 2 ^ 53"
  moreover have "(2::real) ^ 53 < 2 ^ 1024" by (rule power_strict_increasing) simp_all
  ultimately show ?thesis by (simp add: b64_limit_def)
qed

lemma to_f64_fin: "\<bar>r\<bar> < b64_limit \<Longrightarrow> r \<noteq> 0 \<or> \<not> neg \<Longrightarrow> to_f64 neg r = Fin r"
  by (auto simp: to_f64_def)

lemma to_f64_small: "\<bar>r\<bar> \<le> 2 ^ 53 \<Longrightarrow> r \<noteq> 0 \<or> \<not> neg \<Longrightarrow> to_f64 neg r = Fin r"
  by (rule to_f64_fin [OF b64_limit_gt])

lemma real_abs_less_pow: "\<bar>n\<bar> < 2 ^ k \<Longrightarrow> \<bar>real_of_int n\<bar> < 2 ^ k"
  by (metis of_int_abs of_int_less_iff of_int_numeral of_int_power)

lemma int_to_float_exact:
  assumes "\<bar>n\<bar> < 2 ^ 53"
  shows "int_to_float n = Inr (real_of_int n)"
proof -
  from real_abs_less_pow [OF assms] have "\<bar>real_of_int n\<bar> \<le> 2 ^ 53" by simp
  from b64_limit_gt [OF this] show ?thesis
    by (simp add: int_to_float_def round_b64_int [OF assms])
qed

lemma mul_100_exact:
  assumes "\<bar>100 * n\<bar> < 2 ^ 53"
  shows "mul_100 (real_of_int n) = Fin (100 * real_of_int n)"
proof -
  have r: "round_b64 (100 * real_of_int n) = 100 * real_of_int n"
    using round_b64_int [OF assms] by simp
  from real_abs_less_pow [OF assms] have "\<bar>100 * real_of_int n\<bar> \<le> 2 ^ 53" by simp
  from b64_limit_gt [OF this] have "to_f64 (real_of_int n < 0) (100 * real_of_int n) = Fin (100 * real_of_int n)"
    by (intro to_f64_fin) auto
  then show ?thesis by (simp add: mul_100_def r)
qed

lemma ratio_binary64_small:
  assumes "\<bar>100 * (t - i)\<bar> < 2 ^ 53" and "\<bar>t\<bar> < 2 ^ 53" and "t \<noteq> 0"
  shows "ratio_binary64 t i =
           Inr (to_f64 ((100 * real_of_int (t - i) < 0) \<noteq> (real_of_int t < 0))
                  (round_b64 (100 * real_of_int (t - i) / real_of_int t)))"
proof -
  from assms(1) have n: "\<bar>t - i\<bar> < 2 ^ 53" by simp
  show ?thesis
    by (simp only: ratio_binary64_def assms(3) if_False int_to_float_exact [OF n]
          int_to_float_exact [OF assms(2)] mul_100_exact [OF assms(1)] div_by_def
          sum.case f64.case)
qed

lemma percent_binary64_ratio:
  assumes "5 \<le> length prev" and "5 \<le> length cur"
  shows "percent_binary64 prev cur =
           ratio_binary64 (sum_list cur - sum_list prev) ((cur ! 3 + cur ! 4) - (prev ! 3 + prev ! 4))"
  using assms by (simp add: percent_binary64_def index_in_range Let_def)

lemma delta_bounds:
  fixes t i B :: int
  assumes "0 \<le> i" and "i \<le> t" and "100 * t < B"
  shows "\<bar>100 * (t - i)\<bar> < B" and "\<bar>t\<bar> < B"
proof -
  from assms have "0 \<le> 100 * (t - i)" and "100 * (t - i) \<le> 100 * t" by simp_all
  with assms(3) show "\<bar>100 * (t - i)\<bar> < B" by linarith
  from assms show "\<bar>t\<bar> < B" by linarith
qed

lemma abs_le_pow53: "0 \<le> r \<Longrightarrow> r \<le> 100 \<Longrightarrow> \<bar>r\<bar> \<le> (2::real) ^ 53"
proof -
  assume a: "0 \<le> r" "r \<le> 100"
  have "(2::real) ^ 7 \<le> 2 ^ 53" by (rule power_increasing) simp_all
  moreover have "(2::real) ^ 7 = 128" by simp
  ultimately have "(128::real) \<le> 2 ^ 53" by (simp only:)
  with a show ?thesis by linarith
qed

text \<open>
  What the binary64 computation gives on four pairs of snapshots: a value above 100 and
  a negative one when a counter went down, a value above 100 on counters that only went
  up but are large, and the value of the specification's scenario.
\<close>

lemma round_b64_of_int: "\<bar>n\<bar> < 2 ^ 53 \<Longrightarrow> x = real_of_int n \<Longrightarrow> round_b64 x = x"
  by (simp add: round_b64_int)

lemma b64_above: "percent_binary64 [100, 0, 0, 800, 50] [130, 0, 0, 800, 40] = Inr (Fin 150)"
proof -
  have r: "round_b64 150 = 150" by (rule round_b64_of_int [of 150]) simp_all
  have "percent_binary64 [100, 0, 0, 800, 50] [130, 0, 0, 800, 40] = ratio_binary64 20 (- 10)"
    by (subst percent_binary64_ratio) simp_all
  also have "\<dots> = Inr (Fin 150)"
    by (subst ratio_binary64_small) (simp_all add: r to_f64_small)
  finally show ?thesis .
qed

lemma b64_below: "percent_binary64 [100, 0, 0, 800, 50] [110, 0, 0, 800, 30] = Inr (Fin (- 100))"
proof -
  have r: "round_b64 (- 100) = - 100" by (rule round_b64_of_int [of "- 100"]) simp_all
  have "percent_binary64 [100, 0, 0, 800, 50] [110, 0, 0, 800, 30] = ratio_binary64 (- 10) (- 20)"
    by (subst percent_binary64_ratio) simp_all
  also have "\<dots> = Inr (Fin (- 100))"
    by (subst ratio_binary64_small) (simp_all add: r to_f64_small)
  finally show ?thesis .
qed

lemma b64_large:
  "percent_binary64 [0, 0, 0, 0, 0] [7316233553716016, 0, 0, 0, 0] = Inr (Fin (100 + 1 / 2 ^ 46))"
proof -
  have a: "int_to_float 7316233553716016 = Inr 7316233553716016"
    using int_to_float_exact [of 7316233553716016] by simp
  have m: "mul_100 7316233553716016 = Fin 731623355371601664"
    by (simp add: mul_100_def round_b64_example_product to_f64_def b64_limit_def)
  have "round_b64 (731623355371601664 / 7316233553716016) = 100 + 1 / 2 ^ 46" by (rule round_b64_example_quotient)
  then have d: "div_by (Fin 731623355371601664) 7316233553716016 = Fin (100 + 1 / 2 ^ 46)"
    by (simp only: div_by_def f64.case) (simp add: to_f64_def b64_limit_def)
  have "percent_binary64 [0, 0, 0, 0, 0] [7316233553716016, 0, 0, 0, 0] = ratio_binary64 7316233553716016 0"
    by (subst percent_binary64_ratio) simp_all
  also have "\<dots> = Inr (Fin (100 + 1 / 2 ^ 46))"
    by (simp add: ratio_binary64_def a m d)
  finally show ?thesis .
qed

lemma b64_scenario:
  "percent_binary64 [100, 0, 0, 800, 50, 0, 0, 0] [110, 0, 0, 850, 50, 0, 0, 0]
     = Inr (Fin (4691249611844267 / 2 ^ 48))"
proof -
  have r: "round_b64 (50 / 3) = 4691249611844267 / 2 ^ 48" by (rule round_b64_example_scenario)
  have "percent_binary64 [100, 0, 0, 800, 50, 0, 0, 0] [110, 0, 0, 850, 50, 0, 0, 0] = ratio_binary64 60 50"
    by (subst percent_binary64_ratio) simp_all
  also have "\<dots> = Inr (Fin (4691249611844267 / 2 ^ 48))"
    by (subst ratio_binary64_small) (simp_all add: r to_f64_def b64_limit_def)
  finally show ?thesis .
qed

text \<open>
  Claim C3, as stated: for every pair of snapshots the recorded value lies in
  \<open>[0, 100]\<close>. It fails: the calculator does not clamp, and a counter that went down
  between the two reads (here \<^verbatim>\<open>iowait\<close>, from 50 to 40) gives \<^verbatim>\<open>150.0\<close>.
\<close>

theorem cpu_percent_range_counterexample:
  "percent_binary64 [100, 0, 0, 800, 50] [130, 0, 0, 800, 40] = Inr (Fin 150) \<and>
   \<not> (150 \<le> (100 :: real))"
proof -
  have r: "round_b64 150 = 150" by (rule round_b64_of_int [of 150]) simp_all
  have "percent_binary64 [100, 0, 0, 800, 50] [130, 0, 0, 800, 40] = ratio_binary64 20 (- 10)"
    by (subst percent_binary64_ratio) simp_all
  also have "\<dots> = Inr (Fin 150)"
    by (subst ratio_binary64_small) (simp_all add: r to_f64_small)
  finally show ?thesis by simp
qed

text \<open>
  Claim C3, amended. For two snapshots of the same length, with at least five counters,
  in which no counter went down between the reads and \<open>100 * total_delta < 2 ^ 53\<close>,
  the float that \<^verbatim>\<open>_cpu_percent\<close> returns is finite and lies in \<open>[0, 100]\<close>, and it is
  \<^verbatim>\<open>0.0\<close> when \<open>total_delta\<close> is 0. (Beyond that bound the product \<^verbatim>\<open>100.0 * n\<close> is
  rounded before the division, and \<open>b64_large\<close> above shows a result over 100.)
\<close>

theorem cpu_percent_range_monotone:
  assumes "list_all2 (\<le>) prev cur" and "5 \<le> length prev"
    and "100 * (sum_list cur - sum_list prev) < 2 ^ 53"
  shows "\<exists>v. percent_binary64 prev cur = Inr (Fin v) \<and> 0 \<le> v \<and> v \<le> 100 \<and>
             (sum_list cur - sum_list prev = 0 \<longrightarrow> v = 0)"
proof -
  define t where "t = sum_list cur - sum_list prev"
  define i where "i = (cur ! 3 + cur ! 4) - (prev ! 3 + prev ! 4)"
  from assms have len: "5 \<le> length cur" by (simp add: list_all2_lengthD)
  from monotone_deltas [OF assms(1,2)] have i0: "0 \<le> i" and it: "i \<le> t"
    unfolding i_def t_def by blast+
  from assms(3) have t53: "100 * t < 2 ^ 53" unfolding t_def .
  note b = delta_bounds [OF i0 it t53]
  have val: "percent_binary64 prev cur = ratio_binary64 t i"
    unfolding t_def i_def by (rule percent_binary64_ratio [OF assms(2) len])
  show ?thesis
  proof (cases "t = 0")
    case True
    then have "ratio_binary64 t i = Inr (Fin 0)" by (simp add: ratio_binary64_def)
    with val have "percent_binary64 prev cur = Inr (Fin 0)" by (simp only:)
    then show ?thesis by simp
  next
    case False
    with i0 it have tpos: "0 < t" by linarith
    define q where "q = 100 * real_of_int (t - i) / real_of_int t"
    from it have n0: "0 \<le> real_of_int (t - i)" by simp
    from tpos have tr: "0 < real_of_int t" by simp
    from n0 tr have q0: "0 \<le> q" unfolding q_def by simp
    from i0 have "real_of_int (t - i) \<le> real_of_int t" by simp
    with tr have q100: "q \<le> 100" unfolding q_def by (simp add: divide_le_eq)
    note r = round_b64_percent [OF q0 q100]
    from n0 tr have sg: "\<not> ((100 * real_of_int (t - i) < 0) \<noteq> (real_of_int t < 0))"
      by simp
    have "to_f64 ((100 * real_of_int (t - i) < 0) \<noteq> (real_of_int t < 0)) (round_b64 q)
            = Fin (round_b64 q)"
      by (rule to_f64_small [OF abs_le_pow53 [OF r]]) (simp only: sg, simp)
    with val ratio_binary64_small [OF b False] have "percent_binary64 prev cur = Inr (Fin (round_b64 q))"
      by (simp only: q_def)
    with r False show ?thesis unfolding t_def by blast
  qed
qed

theorem cpu_percent_range_monotone_witness:
  "\<exists>v. percent_binary64 [100, 0, 0, 800, 50, 0, 0, 0] [110, 0, 0, 850, 50, 0, 0, 0] = Inr (Fin v)
       \<and> 0 \<le> v \<and> v \<le> 100"
proof -
  have a: "list_all2 (\<le>) [100, 0, 0, 800, 50, 0, 0, 0] [110, 0, 0, 850, 50, 0, 0, (0::int)]" by simp
  have b: "5 \<le> length [100, 0, 0, 800, 50, 0, 0, (0::int)]" by simp
  have c: "100 * (sum_list [110, 0, 0, 850, 50, 0, 0, (0::int)] - sum_list [100, 0, 0, 800, 50, 0, 0, 0]) < 2 ^ 53"
    by simp
  from cpu_percent_range_monotone [OF a b c] show ?thesis by blast
qed


section \<open>Properties of the sampling loop and the sink\<close>

lemma loop_cond_earlier: "loop_cond its k \<Longrightarrow> j \<le> k \<Longrightarrow> loop_cond its j"
  by (auto simp: loop_cond_def)

text \<open>
  As long as the loop condition holds and the cycles compute a value, \<open>n\<close> units of
  fuel are spent on \<open>n\<close> cycles, each of which appends its row.
\<close>

lemma sampling_loop_cycles:
  assumes "\<forall>j<n. loop_cond its (count + j) \<and> \<not> isl (cycle w interval (count + j))"
  shows "sampling_loop w interval its (n + fuel) count out =
           sampling_loop w interval its fuel (count + n)
             (out @ map (data_row w interval) [count..<count + n])"
  using assms
proof (induction n arbitrary: count out)
  case 0
  then show ?case by simp
next
  case (Suc n)
  from Suc.prems have c0: "loop_cond its count" and ok0: "\<not> isl (cycle w interval count)"
    by (auto dest: spec [of _ 0])
  from ok0 obtain cpu where cpu: "cycle w interval count = Inr cpu"
    by (cases "cycle w interval count") auto
  have rest: "\<forall>j<n. loop_cond its (Suc count + j) \<and> \<not> isl (cycle w interval (Suc count + j))"
    using Suc.prems by (auto dest: spec [of _ "Suc _"])
  have row: "[Str (now w count), Num cpu] = data_row w interval count"
    by (simp add: data_row_def cpu)
  have "sampling_loop w interval its (Suc n + fuel) count out =
          sampling_loop w interval its (n + fuel) (Suc count) (out @ [data_row w interval count])"
    using c0 cpu row by simp
  also have "\<dots> = sampling_loop w interval its fuel (Suc count + n)
                     ((out @ [data_row w interval count]) @
                        map (data_row w interval) [Suc count..<Suc count + n])"
    by (rule Suc.IH [OF rest])
  finally show ?case
    by (simp add: upt_conv_Cons del: upt_Suc sampling_loop.simps)
qed

lemma sampling_loop_from_start:
  assumes "\<forall>j<n. loop_cond its j \<and> \<not> isl (cycle w interval j)"
  shows "sampling_loop w interval its (n + fuel) 0 out =
           sampling_loop w interval its fuel n (out @ data_rows w interval n)"
  using sampling_loop_cycles [of n its 0 w interval fuel out] assms
  by (simp add: data_rows_def)

text \<open>The loop writes no header row: it leaves the number of header rows as it finds it.\<close>

lemma sampling_loop_headers:
  "count_list (written (sampling_loop w interval its fuel count out)) header_row =
     count_list out header_row"
proof (induction fuel arbitrary: count out)
  case 0
  then show ?case by simp
next
  case (Suc fuel)
  show ?case
  proof (cases "loop_cond its count")
    case False
    then show ?thesis by simp
  next
    case True
    show ?thesis
    proof (cases "cycle w interval count")
      case (Inl e)
      with True show ?thesis by simp
    next
      case (Inr cpu)
      with True Suc.IH [of "count + 1" "out @ [[Str (now w count), Num cpu]]"]
      show ?thesis by (simp add: header_row_def)
    qed
  qed
qed

lemma sampling_loop_unbounded:
  "status (sampling_loop w interval 0 fuel count out) \<noteq> Returned"
proof (induction fuel arbitrary: count out)
  case 0
  then show ?case by (simp add: loop_cond_def)
next
  case (Suc fuel)
  then show ?case
    by (cases "cycle w interval count") (simp_all add: loop_cond_def)
qed

lemma record_cpu_opened:
  assumes "output_file = ''-'' \<or> openable w output_file"
  shows "record_cpu w fuel interval its output_file =
           sampling_loop w interval its fuel 0 (header_part w output_file)"
  using assms by (auto simp: record_cpu_def header_part_def Let_def)

lemma example_cycle: "cycle example_world 1 k = Inr (50 / 3)"
  using example_percent by (simp add: cycle_def example_world_def)

lemma example_row:
  "data_row example_world 1 k = [Str ''2024-05-01T12:00:00.000000'', Num (50 / 3)]"
  by (simp add: data_row_def example_cycle) (simp add: example_world_def)

lemma example_rows:
  "data_rows example_world 1 n = replicate n [Str ''2024-05-01T12:00:00.000000'', Num (50 / 3)]"
  by (simp add: data_rows_def example_row list_eq_iff_nth_eq)

lemma broken_cycle0: "cycle broken_world 1 0 = Inr (50 / 3)"
  using example_percent by (simp add: cycle_def broken_world_def example_world_def)

lemma broken_cycle1: "cycle broken_world 1 1 = Inl ValueError"
  by (simp add: cycle_def broken_world_def example_world_def cpu_percent_def
        read_prev read_broken sleep_def)

text \<open>
  Claim C2, as stated: the header row is written exactly once when the target file is
  new or empty when it is opened. It fails for a file that exists and is empty: the
  script decides by \<^verbatim>\<open>Path.exists\<close> alone, so it writes no header there.
\<close>

theorem header_empty_file_counterexample:
  "files empty_file_world ''cpu_usage.log'' = Some [] \<and>
   openable empty_file_world ''cpu_usage.log'' \<and>
   count_list (written (record_cpu empty_file_world 3 1 3 ''cpu_usage.log'')) header_row = 0"
  by (simp add: record_cpu_def sampling_loop_headers empty_file_world_def example_world_def)

text \<open>
  Claim C2, amended. In every run, whatever the number of cycles, the header row is
  written exactly once when the sink is standard output, exactly once when nothing
  exists at the target path and the path can be opened, and not at all otherwise: in
  particular not when the target exists, with or without content.
\<close>

theorem header_written_once:
  "count_list (written (record_cpu w fuel interval its output_file)) header_row =
     (if output_file = ''-'' then 1
      else if files w output_file = None \<and> openable w output_file then 1
      else 0)"
  by (simp add: record_cpu_def Let_def sampling_loop_headers)

theorem header_written_once_witness:
  "count_list (written (record_cpu example_world 3 1 3 ''cpu_usage.log'')) header_row = 1 \<and>
   count_list (written (record_cpu example_world 3 1 3 ''-'')) header_row = 1 \<and>
   count_list (written (record_cpu used_file_world 3 1 3 ''cpu_usage.log'')) header_row = 0"
  using header_written_once [of example_world 3 1 3 "''cpu_usage.log''"]
        header_written_once [of example_world 3 1 3 "''-''"]
        header_written_once [of used_file_world 3 1 3 "''cpu_usage.log''"]
  by (simp add: example_world_def used_file_world_def)

text \<open>
  Claim C4. For an iteration budget \<open>N > 0\<close>, a sink that opens and cycles that all
  compute a value, every run with fuel for at least \<open>N\<close> cycles returns after exactly
  \<open>N\<close> cycles: it has written the header part and the \<open>N\<close> data rows of the cycles
  \<open>0, \<dots>, N - 1\<close>; a target file that did not exist then holds \<open>N + 1\<close> lines. With
  \<open>N = 3\<close> that is 4 lines.
\<close>

theorem iterations_run_exactly_N_cycles:
  assumes "0 < N" and "\<forall>k<nat N. \<not> isl (cycle w interval k)"
    and "output_file = ''-'' \<or> openable w output_file" and "nat N \<le> fuel"
  shows "record_cpu w fuel interval N output_file =
           \<lparr>written = header_part w output_file @ data_rows w interval (nat N),
            status = Returned\<rparr> \<and>
         length (data_rows w interval (nat N)) = nat N \<and>
         (output_file \<noteq> ''-'' \<and> files w output_file = None \<longrightarrow>
            length (file_after w output_file
                      (written (record_cpu w fuel interval N output_file))) = nat N + 1)"
proof -
  from assms(4) obtain f where fuel: "fuel = nat N + f"
    by (auto simp: le_iff_add)
  have run: "\<forall>j<nat N. loop_cond N j \<and> \<not> isl (cycle w interval j)"
    using assms(1,2) by (auto simp: loop_cond_def)
  have stop: "\<not> loop_cond N (nat N)"
    using assms(1) by (simp add: loop_cond_def)
  have "sampling_loop w interval N f (nat N) rows = \<lparr>written = rows, status = Returned\<rparr>" for rows
    using stop by (cases f) simp_all
  then have res: "record_cpu w fuel interval N output_file =
      \<lparr>written = header_part w output_file @ data_rows w interval (nat N), status = Returned\<rparr>"
    by (simp add: record_cpu_opened [OF assms(3)] fuel sampling_loop_from_start [OF run])
  then show ?thesis
    by (simp add: data_rows_def file_after_def header_part_def)
qed

theorem iterations_run_exactly_N_cycles_witness:
  "record_cpu example_world 5 1 3 ''cpu_usage.log'' =
     \<lparr>written = [header_row,
                 [Str ''2024-05-01T12:00:00.000000'', Num (50 / 3)],
                 [Str ''2024-05-01T12:00:00.000000'', Num (50 / 3)],
                 [Str ''2024-05-01T12:00:00.000000'', Num (50 / 3)]],
      status = Returned\<rparr> \<and>
   length (file_after example_world ''cpu_usage.log''
             (written (record_cpu example_world 5 1 3 ''cpu_usage.log''))) = 4"
proof -
  have ok: "\<forall>k<nat 3. \<not> isl (cycle example_world 1 k)" by (simp add: example_cycle)
  have op: "''cpu_usage.log'' = ''-'' \<or> openable example_world ''cpu_usage.log''"
    by (simp add: example_world_def)
  have fresh: "files example_world ''cpu_usage.log'' = None" by (simp add: example_world_def)
  have rows: "data_rows example_world 1 (nat 3) =
      [[Str ''2024-05-01T12:00:00.000000'', Num (50 / 3)],
       [Str ''2024-05-01T12:00:00.000000'', Num (50 / 3)],
       [Str ''2024-05-01T12:00:00.000000'', Num (50 / 3)]]"
    by (simp add: example_rows numeral_3_eq_3)
  from iterations_run_exactly_N_cycles [of 3 example_world 1 "''cpu_usage.log''" 5, OF _ ok op]
       fresh rows
  show ?thesis by (simp add: header_part_def file_after_def)
qed

text \<open>
  Claim C5. With the iteration budget 0 the loop condition holds at every cycle count,
  so no run returns, whatever the fuel; and when the sink opens and the cycles compute
  a value, a run with fuel for \<open>n\<close> cycles has completed \<open>n\<close> cycles, written their rows
  and is about to start the next one.
\<close>

theorem iterations_zero_never_returns:
  "(\<forall>count. loop_cond 0 count) \<and>
   status (record_cpu w fuel interval 0 output_file) \<noteq> Returned \<and>
   ((\<forall>k<fuel. \<not> isl (cycle w interval k)) \<and> (output_file = ''-'' \<or> openable w output_file) \<longrightarrow>
      record_cpu w fuel interval 0 output_file =
        \<lparr>written = header_part w output_file @ data_rows w interval fuel, status = Running\<rparr>)"
proof (intro conjI impI)
  show "\<forall>count. loop_cond 0 count" by (simp add: loop_cond_def)
  show "status (record_cpu w fuel interval 0 output_file) \<noteq> Returned"
    by (simp add: record_cpu_def Let_def sampling_loop_unbounded)
next
  assume a: "(\<forall>k<fuel. \<not> isl (cycle w interval k)) \<and>
             (output_file = ''-'' \<or> openable w output_file)"
  then have run: "\<forall>j<fuel. loop_cond 0 j \<and> \<not> isl (cycle w interval j)"
    by (simp add: loop_cond_def)
  from a have op: "output_file = ''-'' \<or> openable w output_file" by simp
  show "record_cpu w fuel interval 0 output_file =
        \<lparr>written = header_part w output_file @ data_rows w interval fuel, status = Running\<rparr>"
    using sampling_loop_from_start [OF run, of 0 "header_part w output_file"]
    by (simp add: record_cpu_opened [OF op] loop_cond_def)
qed

theorem iterations_zero_never_returns_witness:
  "status (record_cpu example_world 7 1 0 ''-'') = Running \<and>
   length (written (record_cpu example_world 7 1 0 ''-'')) = 8"
  using iterations_zero_never_returns [of example_world 7 1 "''-''"]
  by (simp add: example_cycle header_part_def data_rows_def)

text \<open>
  Claim C6. When the cycles before cycle \<open>k\<close> compute a value and cycle \<open>k\<close> raises \<open>e\<close>
  (in a read of the snapshot, in the wait or in the computation), a run that reaches
  cycle \<open>k\<close> ends with \<open>e\<close>, and what it has written is the header part and the rows of
  the \<open>k\<close> completed cycles: the failed cycle adds nothing.
\<close>

theorem failed_cycle_writes_nothing:
  assumes "loop_cond its k" and "\<forall>j<k. \<not> isl (cycle w interval j)"
    and "cycle w interval k = Inl e"
    and "output_file = ''-'' \<or> openable w output_file" and "k < fuel"
  shows "record_cpu w fuel interval its output_file =
           \<lparr>written = header_part w output_file @ data_rows w interval k, status = Raised e\<rparr>"
proof -
  from assms(5) obtain f where fuel: "fuel = k + Suc f"
    by (auto simp: less_iff_Suc_add)
  have run: "\<forall>j<k. loop_cond its j \<and> \<not> isl (cycle w interval j)"
    using assms(1,2) by (auto intro: loop_cond_earlier)
  have "record_cpu w fuel interval its output_file =
          sampling_loop w interval its (k + Suc f) 0 (header_part w output_file)"
    by (simp only: record_cpu_opened [OF assms(4)] fuel)
  also have "\<dots> = sampling_loop w interval its (Suc f) k
                     (header_part w output_file @ data_rows w interval k)"
    by (rule sampling_loop_from_start [OF run])
  also have "\<dots> = \<lparr>written = header_part w output_file @ data_rows w interval k,
                      status = Raised e\<rparr>"
    using assms(1,3) by simp
  finally show ?thesis .
qed

theorem failed_cycle_writes_nothing_witness:
  "record_cpu broken_world 5 1 3 ''-'' =
     \<lparr>written = [header_row, [Str ''2024-05-01T12:00:00.000000'', Num (50 / 3)]],
      status = Raised ValueError\<rparr>"
proof -
  have c: "loop_cond 3 1" by (simp add: loop_cond_def)
  have ok: "\<forall>j<1. \<not> isl (cycle broken_world 1 j)" by (simp add: broken_cycle0)
  have rows: "data_rows broken_world 1 1 = [[Str ''2024-05-01T12:00:00.000000'', Num (50 / 3)]]"
    by (simp add: data_rows_def data_row_def broken_cycle0)
       (simp add: broken_world_def example_world_def)
  from failed_cycle_writes_nothing [OF c ok broken_cycle1, of "''-''" 5] rows
  show ?thesis by (simp add: header_part_def)
qed

text \<open>
  Claim C10. For a negative iteration budget the loop condition is false on entry, so
  whatever the fuel no cycle runs: once the sink is open the run returns having written
  the header part only (no data row), and a sink that cannot be opened makes the run
  raise before anything is written.
\<close>

theorem negative_iterations_no_cycle:
  assumes "its < 0"
  shows "\<not> loop_cond its 0 \<and>
         record_cpu w fuel interval its output_file =
           (if output_file \<noteq> ''-'' \<and> \<not> openable w output_file
            then \<lparr>written = [], status = Raised OSError\<rparr>
            else \<lparr>written = header_part w output_file, status = Returned\<rparr>)"
proof -
  from assms have stop: "\<not> loop_cond its 0" by (simp add: loop_cond_def)
  then have "sampling_loop w interval its fuel 0 rows = \<lparr>written = rows, status = Returned\<rparr>"
    for rows
    by (cases fuel) simp_all
  with stop show ?thesis
    by (simp add: record_cpu_def header_part_def Let_def)
qed

theorem negative_iterations_no_cycle_witness:
  "record_cpu example_world 5 1 (- 1) ''cpu_usage.log'' =
     \<lparr>written = [header_row], status = Returned\<rparr> \<and>
   record_cpu used_file_world 5 1 (- 1) ''cpu_usage.log'' = \<lparr>written = [], status = Returned\<rparr>"
  using negative_iterations_no_cycle [of "- 1" example_world 5 1 "''cpu_usage.log''"]
        negative_iterations_no_cycle [of "- 1" used_file_world 5 1 "''cpu_usage.log''"]
  by (simp add: header_part_def example_world_def used_file_world_def)

end
